theory Spec2Isabelle
  imports Main "HOL-Library.Sublist"
begin

section \<open>String helpers of the Python runtime\<close>

text \<open>
  Strings are \<^typ>\<open>string\<close> (lists of \<^typ>\<open>char\<close>); the helpers below are the
  methods of Python's \<^verbatim>\<open>str\<close> that \<^verbatim>\<open>crawl.py\<close> calls. A \<^typ>\<open>char\<close> stands
  for the code point of the same number, below 256.
\<close>

definition startswith :: "string \<Rightarrow> string \<Rightarrow> bool" where
  "startswith s p = (take (length p) s = p)"

text \<open>\<^verbatim>\<open>sub in s\<close>: \<open>sub\<close> occurs as a contiguous piece of \<open>s\<close>.\<close>

fun contains :: "string \<Rightarrow> string \<Rightarrow> bool" where
  "contains [] sub = (sub = [])"
| "contains (c # cs) sub = (startswith (c # cs) sub \<or> contains cs sub)"

text \<open>
  \<^verbatim>\<open>str.isspace\<close> on one character below 256: space, tab, line feed, vertical tab,
  form feed, carriage return, the four separators 0x1C to 0x1F, the next-line control
  0x85 and the no-break space 0xA0. They are the characters that \<^verbatim>\<open>str.strip\<close>
  removes, and the regular expression class \<^verbatim>\<open>\s\<close> on a \<^verbatim>\<open>str\<close> pattern matches
  the same characters.
\<close>

definition isspace :: "char \<Rightarrow> bool" where
  "isspace c = (c \<in> set [CHR '' '', CHR 0x09, CHR 0x0A, CHR 0x0B, CHR 0x0C, CHR 0x0D,
                           CHR 0x1C, CHR 0x1D, CHR 0x1E, CHR 0x1F, CHR 0x85, CHR 0xA0])"

definition lstrip :: "string \<Rightarrow> string" where
  "lstrip s = dropWhile isspace s"

definition rstrip :: "string \<Rightarrow> string" where
  "rstrip s = rev (dropWhile isspace (rev s))"

definition strip :: "string \<Rightarrow> string" where
  "strip s = rstrip (lstrip s)"

text \<open>\<^verbatim>\<open>s.rstrip(chars)\<close> with an explicit character set.\<close>

definition rstrip_chars :: "string \<Rightarrow> string \<Rightarrow> string" where
  "rstrip_chars chars s = rev (dropWhile (\<lambda>c. c \<in> set chars) (rev s))"

definition removeprefix :: "string \<Rightarrow> string \<Rightarrow> string" where
  "removeprefix p s = (if startswith s p then drop (length p) s else s)"

definition lower_char :: "char \<Rightarrow> char" where
  "lower_char c =
     (let n = (of_char c :: nat) in if 65 \<le> n \<and> n \<le> 90 then char_of (n + 32) else c)"

definition lower :: "string \<Rightarrow> string" where
  "lower s = map lower_char s"

section \<open>The catalog: \<^verbatim>\<open>parse_links_file\<close>\<close>

text \<open>
  A catalog entry is the dictionary \<^verbatim>\<open>{"name": ..., "urls": [...]}\<close>, modelled as a
  pair. The file is given as the list of its lines, as the iteration
  \<^verbatim>\<open>for line in f\<close> yields them.
\<close>

type_synonym source = "string \<times> string list"

definition is_url :: "string \<Rightarrow> bool" where
  "is_url line = (startswith line ''http://'' \<or> startswith line ''https://'')"

text \<open>\<^verbatim>\<open>if current and current["urls"]: entries.append(current)\<close>\<close>

definition append_current :: "source list \<Rightarrow> source option \<Rightarrow> source list" where
  "append_current entries current =
     (case current of
        None \<Rightarrow> entries
      | Some c \<Rightarrow> if snd c \<noteq> [] then entries @ [c] else entries)"

text \<open>The loop over the lines, threading \<^verbatim>\<open>entries\<close> and \<^verbatim>\<open>current\<close>.\<close>

fun parse_lines :: "source list \<Rightarrow> source option \<Rightarrow> string list \<Rightarrow> source list \<times> source option" where
  "parse_lines entries current [] = (entries, current)"
| "parse_lines entries current (raw # rest) =
     (let line = strip raw in
      if line = [] then parse_lines (append_current entries current) None rest
      else if is_url line then
        (let cur = (case current of None \<Rightarrow> ('''', []) | Some c \<Rightarrow> c)
         in parse_lines entries (Some (fst cur, snd cur @ [line])) rest)
      else parse_lines entries (Some (line, [])) rest)"

definition parse_links_file :: "string list \<Rightarrow> source list" where
  "parse_links_file lines =
     (case parse_lines [] None lines of (entries, current) \<Rightarrow> append_current entries current)"

subsection \<open>Blocks of a catalog\<close>

text \<open>
  The stripped lines, cut at the empty ones: the blocks of the catalog (a block may be
  empty, where two blank lines follow each other).
\<close>

fun blocks :: "string list \<Rightarrow> string list list" where
  "blocks [] = [[]]"
| "blocks (l # ls) =
     (if l = [] then [] # blocks ls
      else (case blocks ls of [] \<Rightarrow> [[l]] | b # bs \<Rightarrow> (l # b) # bs))"

text \<open>
  What the code makes of one block: the name is the last line of the block that is not
  a URL (the empty string when every line is a URL), the URLs are the lines after it,
  and a block with no URL after its last name line gives no source.
\<close>

definition block_name :: "string list \<Rightarrow> string" where
  "block_name b =
     (let names = filter (\<lambda>l. \<not> is_url l) b in if names = [] then '''' else last names)"

definition block_urls :: "string list \<Rightarrow> string list" where
  "block_urls b = rev (takeWhile is_url (rev b))"

definition block_source :: "string list \<Rightarrow> source option" where
  "block_source b = (if block_urls b = [] then None else Some (block_name b, block_urls b))"

text \<open>
  The reading of the specification: the name is the first line of the block when that
  line is not a URL (the empty string otherwise), and every URL line of the block
  belongs to the source.
\<close>

definition spec_block_source :: "string list \<Rightarrow> source option" where
  "spec_block_source b =
     (if filter is_url b = [] then None
      else Some (case b of [] \<Rightarrow> '''' | l # ls \<Rightarrow> if is_url l then '''' else l, filter is_url b))"


text \<open>
  The state of the loop after the lines \<open>pb\<close> of the block in progress, and a block in
  progress put in front of the blocks of the remaining lines.
\<close>

definition cur_of :: "string list \<Rightarrow> source option" where
  "cur_of pb = (if pb = [] then None else Some (block_name pb, block_urls pb))"

definition glue :: "string list \<Rightarrow> string list list \<Rightarrow> string list list" where
  "glue pb bs = (case bs of [] \<Rightarrow> [pb] | b # bs' \<Rightarrow> (pb @ b) # bs')"

section \<open>The world outside the crawler\<close>

text \<open>
  The crawler talks to libraries: \<^verbatim>\<open>requests\<close>, \<^verbatim>\<open>BeautifulSoup\<close>,
  \<^verbatim>\<open>feedparser\<close>, \<^verbatim>\<open>urllib.parse\<close>, \<^verbatim>\<open>time\<close>/\<^verbatim>\<open>datetime\<close> and
  Playwright. Their code is not part of the program; they are the fields of an
  environment. Every call that leaves the process is written to a trace, and what the
  network answers may depend on the trace so far (the same URL may answer differently
  the second time). The trace has one event for a page GET, one for a HEAD probe (each
  with the answer), one for the retrieval of a feed and one for a call of
  \<^verbatim>\<open>take_screenshot\<close>.

  The exceptions that \<^verbatim>\<open>crawl.py\<close> catches are values of the results of the fields.
  One exception that it does not catch is modelled: the \<^verbatim>\<open>ValueError\<close> that
  \<^verbatim>\<open>urlparse\<close> raises on some strings (a host with one bracket only, for instance);
  the field \<open>urlparse_raises\<close> says on which, and the field \<open>urlparse\<close> gives the
  result on the others.
\<close>

record response =
  status_code :: int
  content_type :: "string option"
  resp_text :: string

datatype event =
    Get string "response option"
  | Head string "response option"
  | Parse string
  | Screenshot string

text \<open>A \<^verbatim>\<open><link rel="alternate">\<close> element: its \<^verbatim>\<open>type\<close> and \<^verbatim>\<open>href\<close> attributes.\<close>

record link_tag =
  link_type :: "string option"
  link_href :: "string option"

text \<open>\<^verbatim>\<open>time.struct_time\<close>: a tuple of nine integers, hence never falsy.\<close>

datatype struct_time = Struct_time int int int int int int int int int

text \<open>An entry as \<^verbatim>\<open>feedparser\<close> delivers it; every field may be missing.\<close>

record feed_item =
  item_title :: "string option"
  item_link :: "string option"
  item_summary :: "string option"
  published_parsed :: "struct_time option"
  updated_parsed :: "struct_time option"

record feed =
  bozo :: bool
  feed_entries :: "feed_item list"

text \<open>
  \<^item> \<open>urlparse\<close>: the scheme and the netloc of \<^verbatim>\<open>urllib.parse.urlparse(url)\<close>;
    \<open>urlparse_raises\<close>: the call raises \<^verbatim>\<open>ValueError\<close>;
  \<^item> \<open>requests_get\<close>, \<open>requests_head\<close>: the response, or \<open>None\<close> for a
    \<^verbatim>\<open>requests.RequestException\<close> (HEAD follows redirects);
  \<^item> \<open>alternate_links\<close>: \<^verbatim>\<open>BeautifulSoup(text, "html.parser").find_all("link", rel="alternate")\<close>;
  \<^item> \<open>get_text\<close>: \<^verbatim>\<open>BeautifulSoup(text, "html.parser").get_text(separator=" ")\<close>;
  \<^item> \<open>feedparser_parse\<close>: \<^verbatim>\<open>feedparser.parse(feed_url, agent=...)\<close>;
  \<^item> \<open>to_datetime\<close>: \<^verbatim>\<open>datetime.fromtimestamp(mktime(t), tz=timezone.utc)\<close> as an instant
    (an integer), or \<open>None\<close> for \<^verbatim>\<open>ValueError\<close> and \<^verbatim>\<open>OverflowError\<close>;
  \<^item> \<open>playwright\<close>: the import of Playwright succeeds; \<open>browser_ok\<close>: the browser
    session of \<^verbatim>\<open>take_screenshot\<close> ends without an exception; \<open>today\<close>: the date
    string of \<^verbatim>\<open>datetime.now()\<close>.
\<close>

record env =
  urlparse :: "string \<Rightarrow> string \<times> string"
  urlparse_raises :: "string \<Rightarrow> bool"
  requests_get :: "event list \<Rightarrow> string \<Rightarrow> response option"
  requests_head :: "event list \<Rightarrow> string \<Rightarrow> response option"
  alternate_links :: "string \<Rightarrow> link_tag list"
  get_text :: "string \<Rightarrow> string"
  feedparser_parse :: "event list \<Rightarrow> string \<Rightarrow> feed"
  to_datetime :: "struct_time \<Rightarrow> int option"
  playwright :: bool
  browser_ok :: "event list \<Rightarrow> string \<Rightarrow> bool"
  today :: "event list \<Rightarrow> string"

section \<open>Feed discovery\<close>

definition SKIP_DOMAINS :: "string list" where
  "SKIP_DOMAINS = [''nitter.net'']"

definition WELL_KNOWN_FEED_PATHS :: "string list" where
  "WELL_KNOWN_FEED_PATHS =
     [''/feed'', ''/rss'', ''/rss.xml'', ''/atom.xml'', ''/feed.xml'', ''/index.xml'']"

definition PLATFORM_FEED_PATTERNS :: "(string \<times> (string \<Rightarrow> string)) list" where
  "PLATFORM_FEED_PATTERNS =
     [(''medium.com'', \<lambda>url. rstrip_chars ''/'' url @ ''/feed''),
      (''substack.com'', \<lambda>url. rstrip_chars ''/'' url @ ''/feed'')]"

definition domain_of :: "env \<Rightarrow> string \<Rightarrow> string" where
  "domain_of env url = removeprefix ''www.'' (snd (urlparse env url))"

definition should_skip :: "env \<Rightarrow> string \<Rightarrow> bool" where
  "should_skip env url = (domain_of env url \<in> set SKIP_DOMAINS)"

text \<open>\<^verbatim>\<open>resp.raise_for_status()\<close> raises for the statuses 400 to 599.\<close>

definition raises_for_status :: "response \<Rightarrow> bool" where
  "raises_for_status resp = (400 \<le> status_code resp \<and> status_code resp < 600)"

text \<open>\<^verbatim>\<open>x or ""\<close> and \<^verbatim>\<open>d.get(key, "")\<close> on an attribute that may be missing.\<close>

definition or_empty :: "string option \<Rightarrow> string" where
  "or_empty x = (case x of None \<Rightarrow> '''' | Some s \<Rightarrow> s)"

text \<open>The loop over the \<^verbatim>\<open>link\<close> elements of \<^verbatim>\<open>discover_feed_from_html\<close>.\<close>

fun scan_links :: "env \<Rightarrow> string \<Rightarrow> link_tag list \<Rightarrow> string option" where
  "scan_links env url [] = None"
| "scan_links env url (link # links) =
     (let ltype = lower (or_empty (link_type link)) in
      if contains ltype ''rss'' \<or> contains ltype ''atom'' then
        (let href = or_empty (link_href link);
             href' =
               (if href \<noteq> [] \<and> \<not> startswith href ''http'' then
                  (let (scheme, netloc) = urlparse env url in
                   if startswith href ''/'' then scheme @ ''://'' @ netloc @ href
                   else scheme @ ''://'' @ netloc @ ''/'' @ href)
                else href)
         in if href' \<noteq> [] then Some href' else scan_links env url links)
      else scan_links env url links)"

definition discover_feed_from_html :: "env \<Rightarrow> string \<Rightarrow> event list \<Rightarrow> string option \<times> event list" where
  "discover_feed_from_html env url tr =
     (let r = requests_get env tr url; tr' = tr @ [Get url r] in
      case r of
        None \<Rightarrow> (None, tr')
      | Some resp \<Rightarrow>
          if raises_for_status resp then (None, tr')
          else (scan_links env url (alternate_links env (resp_text resp)), tr'))"

text \<open>The loop over the well-known paths; an exception continues with the next path.\<close>

fun probe_well_known :: "env \<Rightarrow> string \<Rightarrow> string list \<Rightarrow> event list \<Rightarrow> string option \<times> event list" where
  "probe_well_known env base [] tr = (None, tr)"
| "probe_well_known env base (path # paths) tr =
     (let feed_url = base @ path;
          r = requests_head env tr feed_url;
          tr' = tr @ [Head feed_url r]
      in case r of
           None \<Rightarrow> probe_well_known env base paths tr'
         | Some resp \<Rightarrow>
             (let ctype = lower (or_empty (content_type resp)) in
              if status_code resp = 200 \<and>
                 (contains ctype ''xml'' \<or> contains ctype ''rss'' \<or> contains ctype ''atom'')
              then (Some feed_url, tr')
              else probe_well_known env base paths tr'))"

definition discover_feed_well_known :: "env \<Rightarrow> string \<Rightarrow> event list \<Rightarrow> string option \<times> event list" where
  "discover_feed_well_known env url tr =
     (let (scheme, netloc) = urlparse env url;
          base = scheme @ ''://'' @ netloc
      in probe_well_known env base WELL_KNOWN_FEED_PATHS tr)"

text \<open>The loop over the platform patterns, in the order of the dictionary.\<close>

fun probe_platforms :: "env \<Rightarrow> string \<Rightarrow> string \<Rightarrow> (string \<times> (string \<Rightarrow> string)) list \<Rightarrow> event list \<Rightarrow> string option \<times> event list" where
  "probe_platforms env url domain [] tr = (None, tr)"
| "probe_platforms env url domain ((platform_domain, make_feed_url) # rest) tr =
     (if contains domain platform_domain then
        (let feed_url = make_feed_url url;
             r = requests_head env tr feed_url;
             tr' = tr @ [Head feed_url r]
         in case r of
              None \<Rightarrow> probe_platforms env url domain rest tr'
            | Some resp \<Rightarrow>
                if status_code resp = 200 then (Some feed_url, tr')
                else probe_platforms env url domain rest tr')
      else probe_platforms env url domain rest tr)"

definition discover_feed_platform :: "env \<Rightarrow> string \<Rightarrow> event list \<Rightarrow> string option \<times> event list" where
  "discover_feed_platform env url tr =
     probe_platforms env url (domain_of env url) PLATFORM_FEED_PATTERNS tr"

text \<open>\<^verbatim>\<open>if feed_url:\<close> holds for a string that is not empty.\<close>

definition truthy :: "string option \<Rightarrow> bool" where
  "truthy x = (case x of None \<Rightarrow> False | Some s \<Rightarrow> s \<noteq> [])"

definition discover_feed :: "env \<Rightarrow> string \<Rightarrow> event list \<Rightarrow> string option \<times> event list" where
  "discover_feed env url tr =
     (case discover_feed_from_html env url tr of (feed_url, tr1) \<Rightarrow>
        if truthy feed_url then (feed_url, tr1)
        else (case discover_feed_platform env url tr1 of (feed_url, tr2) \<Rightarrow>
          if truthy feed_url then (feed_url, tr2)
          else (case discover_feed_well_known env url tr2 of (feed_url, tr3) \<Rightarrow>
            if truthy feed_url then (feed_url, tr3) else (None, tr3))))"


section \<open>Entries of a feed\<close>

text \<open>
  \<^verbatim>\<open>parse_feed_date\<close>: the loop over the attributes \<^verbatim>\<open>published_parsed\<close> and
  \<^verbatim>\<open>updated_parsed\<close>; an attribute that is missing, or whose conversion raises, is
  passed over.
\<close>

fun first_date :: "env \<Rightarrow> struct_time option list \<Rightarrow> int option" where
  "first_date env [] = None"
| "first_date env (t # ts) =
     (case t of
        None \<Rightarrow> first_date env ts
      | Some st \<Rightarrow>
          (case to_datetime env st of
             Some d \<Rightarrow> Some d
           | None \<Rightarrow> first_date env ts))"

definition parse_feed_date :: "env \<Rightarrow> feed_item \<Rightarrow> int option" where
  "parse_feed_date env item = first_date env [published_parsed item, updated_parsed item]"

text \<open>
  \<^verbatim>\<open>re.sub(r"\s+", " ", clean)\<close>: every maximal run of whitespace becomes one space.
\<close>

function collapse_whitespace :: "string \<Rightarrow> string" where
  "collapse_whitespace [] = []"
| "collapse_whitespace (c # cs) =
     (if isspace c then CHR '' '' # collapse_whitespace (dropWhile isspace cs)
      else c # collapse_whitespace cs)"
  by pat_completeness auto
termination
  by (relation "measure length") (auto simp: length_dropWhile_le le_imp_less_Suc)

definition clean_summary :: "env \<Rightarrow> string \<Rightarrow> string" where
  "clean_summary env txt =
     (let clean = strip (get_text env txt);
          clean = collapse_whitespace clean
      in if length clean > 300 then take 300 clean @ ''...'' else clean)"

text \<open>
  The dictionary built for an entry that is kept. The \<^verbatim>\<open>date\<close> is kept as the
  instant; its rendering by \<^verbatim>\<open>isoformat\<close> is not modelled.
\<close>

record entry =
  entry_title :: string
  entry_url :: string
  entry_date :: "int option"
  entry_summary :: string

definition make_entry :: "env \<Rightarrow> feed_item \<Rightarrow> entry" where
  "make_entry env item =
     \<lparr>entry_title = (case item_title item of None \<Rightarrow> ''Untitled'' | Some t \<Rightarrow> t),
      entry_url = or_empty (item_link item),
      entry_date = parse_feed_date env item,
      entry_summary = clean_summary env (or_empty (item_summary item))\<rparr>"

text \<open>The loop of \<^verbatim>\<open>fetch_feed_entries\<close>, with the list \<^verbatim>\<open>entries\<close> built so far.\<close>

fun collect_entries :: "env \<Rightarrow> int \<Rightarrow> feed_item list \<Rightarrow> entry list \<Rightarrow> entry list" where
  "collect_entries env cutoff [] acc = acc"
| "collect_entries env cutoff (item # items) acc =
     (case parse_feed_date env item of
        None \<Rightarrow> collect_entries env cutoff items (acc @ [make_entry env item])
      | Some d \<Rightarrow>
          if d < cutoff then collect_entries env cutoff items acc
          else collect_entries env cutoff items (acc @ [make_entry env item]))"

definition fetch_feed_entries :: "env \<Rightarrow> string \<Rightarrow> int \<Rightarrow> event list \<Rightarrow> entry list \<times> event list" where
  "fetch_feed_entries env feed_url cutoff tr =
     (let parsed = feedparser_parse env tr feed_url; tr' = tr @ [Parse feed_url] in
      if bozo parsed \<and> feed_entries parsed = [] then ([], tr')
      else (collect_entries env cutoff (feed_entries parsed) [], tr'))"

text \<open>
  The timestamp of an entry in the words of the specification: the published field
  first, then the updated field, a field that cannot be converted counting as absent.
\<close>

definition field_instant :: "env \<Rightarrow> struct_time option \<Rightarrow> int option" where
  "field_instant env f = (case f of None \<Rightarrow> None | Some st \<Rightarrow> to_datetime env st)"

definition derived_timestamp :: "env \<Rightarrow> feed_item \<Rightarrow> int option" where
  "derived_timestamp env item =
     (case field_instant env (published_parsed item) of
        Some d \<Rightarrow> Some d
      | None \<Rightarrow> field_instant env (updated_parsed item))"

definition excluded :: "env \<Rightarrow> int \<Rightarrow> feed_item \<Rightarrow> bool" where
  "excluded env cutoff item =
     (case derived_timestamp env item of None \<Rightarrow> False | Some d \<Rightarrow> d < cutoff)"

text \<open>A string with no whitespace at either end and no whitespace but single spaces inside.\<close>

fun single_spaced :: "string \<Rightarrow> bool" where
  "single_spaced [] = True"
| "single_spaced [c] = (\<not> isspace c)"
| "single_spaced (c # d # cs) =
     ((if isspace c then c = CHR '' '' \<and> \<not> isspace d else True) \<and> single_spaced (d # cs))"

definition whitespace_normalized :: "string \<Rightarrow> bool" where
  "whitespace_normalized s = (single_spaced s \<and> (case s of [] \<Rightarrow> True | c # cs \<Rightarrow> \<not> isspace c))"

section \<open>Screenshots\<close>

text \<open>
  \<^verbatim>\<open>take_screenshot\<close>. The event \<open>Screenshot url\<close> records the call itself; without
  Playwright the function gives up before any browser is started.
\<close>

definition take_screenshot :: "env \<Rightarrow> string \<Rightarrow> event list \<Rightarrow> string option \<times> event list" where
  "take_screenshot env url tr =
     (let tr' = tr @ [Screenshot url] in
      if \<not> playwright env then (None, tr')
      else
        (let filename = domain_of env url @ ''_'' @ today env tr @ ''.png'' in
         if browser_ok env tr url then (Some (''data/screenshots/'' @ filename), tr')
         else (None, tr')))"

section \<open>Crawling one source\<close>

record crawl_result =
  result_name :: string
  result_urls :: "string list"
  result_method :: "string option"
  result_feed_url :: "string option"
  new_entries :: "entry list"
  screenshots :: "string list"

definition new_result :: "string \<Rightarrow> string list \<Rightarrow> crawl_result" where
  "new_result name urls =
     \<lparr>result_name = name, result_urls = urls, result_method = None, result_feed_url = None,
      new_entries = [], screenshots = []\<rparr>"

text \<open>\<^verbatim>\<open>if not result["method"]: result["method"] = m\<close>\<close>

definition default_method :: "string \<Rightarrow> crawl_result \<Rightarrow> crawl_result" where
  "default_method m result = (if truthy (result_method result) then result else result\<lparr>result_method := Some m\<rparr>)"

text \<open>The fallback of \<^verbatim>\<open>crawl_source\<close> for one URL: the screenshot.\<close>

definition screenshot_fallback :: "env \<Rightarrow> string \<Rightarrow> crawl_result \<Rightarrow> event list \<Rightarrow> crawl_result \<times> event list" where
  "screenshot_fallback env url result tr =
     (case take_screenshot env url tr of (screenshot_path, tr') \<Rightarrow>
        if truthy screenshot_path then
          (default_method ''screenshot''
             (result\<lparr>screenshots := screenshots result @ [or_empty screenshot_path]\<rparr>), tr')
        else (result, tr'))"

text \<open>The body of the loop of \<^verbatim>\<open>crawl_source\<close>.\<close>

definition crawl_source_step :: "env \<Rightarrow> int \<Rightarrow> crawl_result \<times> event list \<Rightarrow> string \<Rightarrow> crawl_result \<times> event list" where
  "crawl_source_step env cutoff st url =
     (case st of (result, tr) \<Rightarrow>
        if should_skip env url then (result, tr)
        else
          (case discover_feed env url tr of (found, tr1) \<Rightarrow>
             if truthy found then
               (case fetch_feed_entries env (or_empty found) cutoff tr1 of (es, tr2) \<Rightarrow>
                  if es \<noteq> [] then
                    (result\<lparr>result_method := Some ''rss'', result_feed_url := found,
                            new_entries := new_entries result @ es\<rparr>, tr2)
                  else screenshot_fallback env url result tr2)
             else screenshot_fallback env url result tr1))"

definition crawl_source :: "env \<Rightarrow> string \<Rightarrow> string list \<Rightarrow> int \<Rightarrow> event list \<Rightarrow> crawl_result \<times> event list" where
  "crawl_source env name urls cutoff tr =
     (case foldl (crawl_source_step env cutoff) (new_result name urls, tr) urls of
        (result, tr') \<Rightarrow> (default_method ''failed'' result, tr'))"

section \<open>The session: \<^verbatim>\<open>main\<close>\<close>

text \<open>The body of the loop that \<^verbatim>\<open>main\<close> runs for a source under \<^verbatim>\<open>--no-screenshots\<close>.\<close>

definition rss_only_step :: "env \<Rightarrow> int \<Rightarrow> crawl_result \<times> event list \<Rightarrow> string \<Rightarrow> crawl_result \<times> event list" where
  "rss_only_step env cutoff st url =
     (case st of (result, tr) \<Rightarrow>
        if should_skip env url then (result, tr)
        else
          (case discover_feed env url tr of (found, tr1) \<Rightarrow>
             if truthy found then
               (case fetch_feed_entries env (or_empty found) cutoff tr1 of (es, tr2) \<Rightarrow>
                  if es \<noteq> [] then
                    (result\<lparr>result_method := Some ''rss'', result_feed_url := found,
                            new_entries := new_entries result @ es\<rparr>, tr2)
                  else (result, tr2))
             else (result, tr1)))"

definition crawl_rss_only :: "env \<Rightarrow> string \<Rightarrow> string list \<Rightarrow> int \<Rightarrow> event list \<Rightarrow> crawl_result \<times> event list" where
  "crawl_rss_only env name urls cutoff tr =
     (case foldl (rss_only_step env cutoff) (new_result name urls, tr) urls of
        (result, tr') \<Rightarrow> (default_method ''no_feed'' result, tr'))"

text \<open>The loop of \<^verbatim>\<open>main\<close> over the sources, with the list \<^verbatim>\<open>results\<close> built so far.\<close>

fun crawl_all :: "env \<Rightarrow> bool \<Rightarrow> int \<Rightarrow> source list \<Rightarrow> crawl_result list \<Rightarrow> event list \<Rightarrow> crawl_result list \<times> event list" where
  "crawl_all env no_screenshots cutoff [] results tr = (results, tr)"
| "crawl_all env no_screenshots cutoff (src # rest) results tr =
     (case (if no_screenshots then crawl_rss_only env (fst src) (snd src) cutoff tr
            else crawl_source env (fst src) (snd src) cutoff tr) of
        (result, tr') \<Rightarrow> crawl_all env no_screenshots cutoff rest (results @ [result]) tr')"

text \<open>The counters of the summary; each is a \<^verbatim>\<open>sum\<close> over a generator.\<close>

definition rss_count :: "crawl_result list \<Rightarrow> nat" where
  "rss_count results = sum_list (map (\<lambda>r. 1) (filter (\<lambda>r. result_method r = Some ''rss'') results))"

definition screenshot_count :: "crawl_result list \<Rightarrow> nat" where
  "screenshot_count results =
     sum_list (map (\<lambda>r. 1) (filter (\<lambda>r. result_method r = Some ''screenshot'') results))"

definition failed_count :: "crawl_result list \<Rightarrow> nat" where
  "failed_count results =
     sum_list (map (\<lambda>r. 1)
       (filter (\<lambda>r. result_method r = Some ''failed'' \<or> result_method r = Some ''no_feed'') results))"

definition total_entries :: "crawl_result list \<Rightarrow> nat" where
  "total_entries results = sum_list (map (\<lambda>r. length (new_entries r)) results)"

section \<open>A concrete world\<close>

text \<open>
  A small world on which the functions above can be run: a URL parser for URLs of the
  form \<^verbatim>\<open>scheme://netloc/...\<close>, a text extractor that drops the tags and joins the
  text nodes with one space, four pages, two answers to HEAD probes and three feeds.
\<close>

definition simple_urlparse :: "string \<Rightarrow> string \<times> string" where
  "simple_urlparse url =
     (let scheme = takeWhile (\<lambda>c. c \<noteq> CHR '':'') url;
          rest = drop (length scheme + 3) url
      in (scheme, takeWhile (\<lambda>c. c \<notin> set ''/?#'') rest))"

text \<open>
  The check of \<^verbatim>\<open>urlsplit\<close> that raises \<^verbatim>\<open>ValueError("Invalid IPv6 URL")\<close>: the
  netloc has one of the brackets and not the other.
\<close>

definition bracket_mismatch :: "string \<Rightarrow> bool" where
  "bracket_mismatch url =
     (let netloc = snd (simple_urlparse url)
      in (CHR ''['' \<in> set netloc) \<noteq> (CHR '']'' \<in> set netloc))"

function text_nodes :: "string \<Rightarrow> string list" where
  "text_nodes [] = []"
| "text_nodes (c # cs) =
     (if c = CHR ''<'' then text_nodes (drop 1 (dropWhile (\<lambda>d. d \<noteq> CHR ''>'') cs))
      else takeWhile (\<lambda>d. d \<noteq> CHR ''<'') (c # cs) # text_nodes (dropWhile (\<lambda>d. d \<noteq> CHR ''<'') cs))"
  by pat_completeness auto
termination
proof (relation "measure length")
  fix c :: char and cs :: string
  have "length (dropWhile (\<lambda>d. d \<noteq> CHR ''>'') cs) - 1 \<le> length cs"
    by (rule order_trans [OF diff_le_self length_dropWhile_le])
  then show "(drop 1 (dropWhile (\<lambda>d. d \<noteq> CHR ''>'') cs), c # cs) \<in> measure length"
    by simp
next
  fix c :: char and cs :: string
  show "(dropWhile (\<lambda>d. d \<noteq> CHR ''<'') cs, c # cs) \<in> measure length"
    by (simp add: length_dropWhile_le le_imp_less_Suc)
qed simp

fun join_nodes :: "string list \<Rightarrow> string" where
  "join_nodes [] = []"
| "join_nodes [n] = n"
| "join_nodes (n # m # ns) = n @ '' '' @ join_nodes (m # ns)"

definition simple_get_text :: "string \<Rightarrow> string" where
  "simple_get_text txt = join_nodes (text_nodes txt)"

definition long_summary :: string where
  "long_summary = ''<p>Hello   world</p>'' @ replicate 400 (CHR ''x'')"

definition ok_page :: "string \<Rightarrow> response" where
  "ok_page txt = \<lparr>status_code = 200, content_type = Some ''text/html'', resp_text = txt\<rparr>"

definition world_get :: "event list \<Rightarrow> string \<Rightarrow> response option" where
  "world_get tr url =
     (if url = ''https://blog.example.org'' then Some (ok_page ''blog'')
      else if url = ''https://notes.example.org/'' then Some (ok_page ''notes'')
      else if url = ''https://old.example.org'' then Some (ok_page ''old'')
      else if url = ''https://news.example.org'' then Some (ok_page ''news'')
      else None)"

definition world_links :: "string \<Rightarrow> link_tag list" where
  "world_links txt =
     (if txt = ''blog'' then
        [\<lparr>link_type = Some ''text/html'', link_href = Some ''/alt''\<rparr>,
         \<lparr>link_type = Some ''application/RSS+xml'', link_href = Some ''/feed.xml''\<rparr>]
      else if txt = ''notes'' then
        [\<lparr>link_type = Some ''application/atom+xml'', link_href = Some ''atom.xml''\<rparr>]
      else if txt = ''old'' then
        [\<lparr>link_type = Some ''application/rss+xml'', link_href = Some ''/rss''\<rparr>]
      else if txt = ''news'' then
        [\<lparr>link_type = Some ''application/rss+xml'',
          link_href = Some ''https://nitter.net/news/rss''\<rparr>]
      else [])"

definition world_head :: "event list \<Rightarrow> string \<Rightarrow> response option" where
  "world_head tr url =
     (if url = ''https://ann.medium.com/feed'' then
        Some \<lparr>status_code = 204, content_type = Some ''application/rss+xml'', resp_text = ''''\<rparr>
      else if url = ''https://bob.substack.com/feed'' then
        Some \<lparr>status_code = 200, content_type = None, resp_text = ''''\<rparr>
      else None)"

definition item_recent :: feed_item where
  "item_recent =
     \<lparr>item_title = Some ''Recent'', item_link = Some ''https://blog.example.org/recent'',
      item_summary = Some ''<b>Fresh</b>  news'',
      published_parsed = Some (Struct_time 2025 3 1 0 0 0 5 60 0), updated_parsed = None\<rparr>"

definition item_old :: feed_item where
  "item_old =
     \<lparr>item_title = Some ''Old'', item_link = Some ''https://blog.example.org/old'',
      item_summary = None,
      published_parsed = Some (Struct_time 2024 6 1 0 0 0 5 153 0), updated_parsed = None\<rparr>"

definition item_undated :: feed_item where
  "item_undated =
     \<lparr>item_title = None, item_link = None, item_summary = Some long_summary,
      published_parsed = None, updated_parsed = None\<rparr>"

definition item_updated :: feed_item where
  "item_updated =
     \<lparr>item_title = Some ''Note'', item_link = Some ''https://notes.example.org/1'',
      item_summary = Some ''plain'',
      published_parsed = Some (Struct_time 99999 1 1 0 0 0 0 1 0),
      updated_parsed = Some (Struct_time 2025 2 1 0 0 0 5 32 0)\<rparr>"

definition world_feed :: "event list \<Rightarrow> string \<Rightarrow> feed" where
  "world_feed tr url =
     (if url = ''https://blog.example.org/feed.xml'' then
        \<lparr>bozo = False, feed_entries = [item_recent, item_old, item_undated]\<rparr>
      else if url = ''https://notes.example.org/atom.xml'' then
        \<lparr>bozo = False, feed_entries = [item_updated]\<rparr>
      else if url = ''https://old.example.org/rss'' then
        \<lparr>bozo = False, feed_entries = [item_old]\<rparr>
      else \<lparr>bozo = True, feed_entries = []\<rparr>)"

definition world_datetime :: "struct_time \<Rightarrow> int option" where
  "world_datetime t =
     (case t of Struct_time y mo d h mi s wd yd dst \<Rightarrow>
        if y > 9999 then None else Some (y * 10000 + mo * 100 + d))"

definition world :: env where
  "world =
     \<lparr>urlparse = simple_urlparse, urlparse_raises = bracket_mismatch, requests_get = world_get, requests_head = world_head,
      alternate_links = world_links, get_text = simple_get_text,
      feedparser_parse = world_feed, to_datetime = world_datetime, playwright = True,
      browser_ok = (\<lambda>tr url. url = ''https://old.example.org''),
      today = (\<lambda>tr. ''2025-03-05'')\<rparr>"

section \<open>Notions used to state the properties\<close>


text \<open>
  The URLs that the HEAD probes for a page URL are made for: the platform candidates
  and the well-known paths on the host of the page.
\<close>

definition head_candidates :: "env \<Rightarrow> string \<Rightarrow> string list" where
  "head_candidates env url =
     map (\<lambda>p. snd p url) PLATFORM_FEED_PATTERNS @
     map (\<lambda>path. fst (urlparse env url) @ ''://'' @ snd (urlparse env url) @ path)
       WELL_KNOWN_FEED_PATHS"

text \<open>
  An event that the crawl of the page URL \<open>src\<close> may cause when the trace so far is
  \<open>pre\<close>: the GET of the page itself, a HEAD probe of one of its candidates, the
  screenshot of the page itself, and the retrieval of the feed \<open>f\<close> when \<open>pre\<close> is
  the trace that a discovery on \<open>src\<close> left on returning \<open>f\<close>.
\<close>

fun caused_by :: "env \<Rightarrow> string \<Rightarrow> event list \<Rightarrow> event \<Rightarrow> bool" where
  "caused_by env src pre (Get u r) = (u = src)"
| "caused_by env src pre (Head u r) = (u \<in> set (head_candidates env src))"
| "caused_by env src pre (Parse f) =
     list_ex (\<lambda>tr0. discover_feed env src tr0 = (Some f, pre)) (prefixes pre)"
| "caused_by env src pre (Screenshot u) = (u = src)"

text \<open>
  The trace \<open>tr'\<close> continues the trace \<open>tr\<close> by events each of which satisfies \<open>Q\<close>
  at the moment it is written, that is, with the trace before it.
\<close>

definition extends_by :: "(event list \<Rightarrow> event \<Rightarrow> bool) \<Rightarrow> event list \<Rightarrow> event list \<Rightarrow> bool" where
  "extends_by Q tr tr' =
     (\<exists>new. tr' = tr @ new \<and> (\<forall>i<length new. Q (tr @ take i new) (new ! i)))"

text \<open>
  What an event of the crawl of a source with the URLs \<open>urls\<close> can be: an event caused
  by a URL of the source that \<^verbatim>\<open>should_skip\<close> lets through.
\<close>

definition event_allowed :: "env \<Rightarrow> string list \<Rightarrow> event list \<Rightarrow> event \<Rightarrow> bool" where
  "event_allowed env urls pre ev =
     list_ex (\<lambda>src. \<not> should_skip env src \<and> caused_by env src pre ev) urls"

section \<open>A URL that cannot be parsed\<close>





section \<open>Well-formed blocks of a catalog\<close>

text \<open>
  A block of the catalog as \<^verbatim>\<open>links.txt\<close> is meant to be written: after its first
  line, which may be the name, every line is a URL.
\<close>

definition well_formed_block :: "string list \<Rightarrow> bool" where
  "well_formed_block b = (case b of [] \<Rightarrow> True | l # ls \<Rightarrow> list_all is_url ls)"

section \<open>Properties of the catalog parser\<close>

lemma blocks_not_Nil: "blocks ls \<noteq> []"
  by (induction ls) (auto split: list.splits)

lemma cur_of_url:
  "is_url l \<Longrightarrow> cur_of (pb @ [l]) =
     Some (fst (case cur_of pb of None \<Rightarrow> ('''', []) | Some c \<Rightarrow> c),
           snd (case cur_of pb of None \<Rightarrow> ('''', []) | Some c \<Rightarrow> c) @ [l])"
  by (simp add: cur_of_def block_name_def block_urls_def)

lemma cur_of_name: "\<not> is_url l \<Longrightarrow> cur_of (pb @ [l]) = Some (l, [])"
  by (simp add: cur_of_def block_name_def block_urls_def)

lemma append_current_cur_of:
  "append_current es (cur_of pb) = es @ List.map_filter block_source [pb]"
  by (simp add: append_current_def cur_of_def block_source_def
      block_urls_def)

text \<open>
  The invariant of the loop: with the lines \<open>pb\<close> of the current block read, the
  sources still to come are those of the remaining blocks, the first of them continuing
  \<open>pb\<close>.
\<close>

lemma parse_lines_blocks:
  "(case parse_lines es (cur_of pb) ls of (es', cur) \<Rightarrow> append_current es' cur) =
     es @ List.map_filter block_source (glue pb (blocks (map strip ls)))"
proof (induction ls arbitrary: es pb)
  case Nil
  show ?case by (simp add: append_current_cur_of glue_def)
next
  case (Cons raw rest)
  obtain b bs where bl: "blocks (map strip rest) = b # bs"
    using blocks_not_Nil by (cases "blocks (map strip rest)") auto
  show ?case
  proof (cases "strip raw = []")
    case True
    have "cur_of [] = None" by (simp add: cur_of_def)
    with Cons.IH [of "append_current es (cur_of pb)" "[]"] True bl
    show ?thesis
      by (simp add: append_current_cur_of glue_def split: option.splits)
  next
    case False
    show ?thesis
    proof (cases "is_url (strip raw)")
      case True
      with Cons.IH [of es "pb @ [strip raw]"] False bl show ?thesis
        by (simp add: cur_of_url glue_def Let_def)
    next
      case nurl: False
      with Cons.IH [of es "pb @ [strip raw]"] False bl show ?thesis
        by (simp add: cur_of_name glue_def Let_def)
    qed
  qed
qed

text \<open>
  What the loop makes of a catalog: it cuts the stripped lines into blocks at the blank
  lines and makes of each block what \<open>block_source\<close> says.
\<close>

lemma parse_links_file_block_source:
  "parse_links_file lines = List.map_filter block_source (blocks (map strip lines))"
proof -
  have "cur_of [] = None" by (simp add: cur_of_def)
  with parse_lines_blocks [of "[]" "[]" lines] blocks_not_Nil [of "map strip lines"]
  show ?thesis
    by (simp add: parse_links_file_def glue_def split: list.splits)
qed

lemma block_source_well_formed:
  assumes "well_formed_block b"
  shows "block_source b = spec_block_source b"
proof (cases b)
  case Nil
  then show ?thesis by (simp add: block_source_def spec_block_source_def block_urls_def)
next
  case (Cons l ls)
  with assms have ls: "\<forall>x\<in>set ls. is_url x"
    by (simp add: well_formed_block_def list_all_iff)
  then have f: "filter is_url ls = ls" "filter (\<lambda>x. \<not> is_url x) ls = []"
    by (simp_all add: filter_empty_conv)
  from ls have "takeWhile is_url (rev ls @ [l]) = rev ls @ takeWhile is_url [l]"
    by (intro takeWhile_append2) simp
  then have t: "takeWhile is_url (rev ls @ [l]) = (if is_url l then rev ls @ [l] else rev ls)"
    by simp
  show ?thesis
    by (simp add: Cons block_source_def spec_block_source_def block_urls_def block_name_def f t)
qed

lemma map_filter_cong_list:
  "\<forall>x\<in>set xs. f x = g x \<Longrightarrow> List.map_filter f xs = List.map_filter g xs"
  by (induction xs) (simp_all add: List.map_filter_def)

text \<open>
  Claim C2, for well-formed catalogs. For every input text in whose blocks no line that
  is not a URL comes after the first line, the catalog parser groups the lines into
  blocks separated by blank lines; the first line of a block, when it is not a URL, is
  the display name of the source, and all the URL lines of the block belong to that
  source; a block whose first line is a URL gets the name \<^verbatim>\<open>""\<close>; a block with no URL
  gives no source.
\<close>

theorem parse_links_file_well_formed:
  assumes "list_all well_formed_block (blocks (map strip lines))"
  shows "parse_links_file lines = List.map_filter spec_block_source (blocks (map strip lines))"
proof -
  from assms have "\<forall>b\<in>set (blocks (map strip lines)). block_source b = spec_block_source b"
    by (simp add: list_all_iff block_source_well_formed)
  then show ?thesis
    unfolding parse_links_file_block_source by (rule map_filter_cong_list)
qed

theorem parse_links_file_well_formed_witness:
  "list_all well_formed_block
     (blocks (map strip [''Blog  '', ''https://a.example/'', ''http://b.example'', '''',
        ''https://c.example'', '' '', ''Lonely'']))
   \<and> parse_links_file [''Blog  '', ''https://a.example/'', ''http://b.example'', '''',
        ''https://c.example'', '' '', ''Lonely''] =
       [(''Blog'', [''https://a.example/'', ''http://b.example'']), ('''', [''https://c.example''])]"
proof -
  let ?lines = "[''Blog  '', ''https://a.example/'', ''http://b.example'', '''',
        ''https://c.example'', '' '', ''Lonely'']"
  have b: "blocks (map strip ?lines) =
      [[''Blog'', ''https://a.example/'', ''http://b.example''], [''https://c.example''], [''Lonely'']]"
    by (simp add: strip_def lstrip_def rstrip_def isspace_def)
  have h: "list_all well_formed_block (blocks (map strip ?lines))"
    unfolding b by (simp add: well_formed_block_def is_url_def startswith_def)
  have "List.map_filter spec_block_source (blocks (map strip ?lines)) =
      [(''Blog'', [''https://a.example/'', ''http://b.example'']), ('''', [''https://c.example''])]"
    unfolding b by (simp add: spec_block_source_def is_url_def startswith_def)
  with parse_links_file_well_formed [OF h] h show ?thesis by simp
qed

text \<open>
  Claim C2 as stated fails: in the block \<^verbatim>\<open>A, http://a, B, http://b\<close> the first line
  that is not a URL is \<^verbatim>\<open>A\<close>, but the only source is named \<^verbatim>\<open>B\<close>, and
  \<^verbatim>\<open>http://a\<close>, a URL line after \<^verbatim>\<open>A\<close>, belongs to no source: the line \<^verbatim>\<open>B\<close>
  replaces the source in progress, which is not appended as it is at a blank line and
  at the end of the file.
\<close>

theorem parse_links_file_first_name_counterexample:
  "parse_links_file [''A'', ''http://a'', ''B'', ''http://b''] = [(''B'', [''http://b''])]
   \<and> List.map_filter spec_block_source (blocks (map strip [''A'', ''http://a'', ''B'', ''http://b'']))
       = [(''A'', [''http://a'', ''http://b''])]"
  by (simp add: parse_links_file_def strip_def lstrip_def rstrip_def isspace_def is_url_def
      startswith_def append_current_def spec_block_source_def)

section \<open>Properties of the entry filter\<close>

lemma parse_feed_date_derived: "parse_feed_date env item = derived_timestamp env item"
  by (simp add: parse_feed_date_def derived_timestamp_def field_instant_def
      split: option.splits)

lemma collect_entries_filter:
  "collect_entries env cutoff items acc =
     acc @ map (make_entry env) (filter (\<lambda>i. \<not> excluded env cutoff i) items)"
  by (induction items arbitrary: acc)
     (auto simp: excluded_def parse_feed_date_derived split: option.splits)

text \<open>
  Claim C1. For every cutoff and every feed, \<^verbatim>\<open>fetch_feed_entries\<close> returns, in the
  order of the feed, the entries that are not excluded, and an entry is excluded exactly
  when its derived timestamp (the published field first, then the updated field, a
  field that cannot be converted counting as absent) is present and strictly earlier
  than the cutoff; an entry with no derivable timestamp is always kept. The date that
  \<^verbatim>\<open>parse_feed_date\<close> computes is that derived timestamp.
\<close>

theorem fetch_feed_entries_cutoff:
  "fst (fetch_feed_entries env feed_url cutoff tr) =
     map (make_entry env)
       (filter (\<lambda>item. case derived_timestamp env item of None \<Rightarrow> True | Some d \<Rightarrow> \<not> d < cutoff)
          (feed_entries (feedparser_parse env tr feed_url)))
   \<and> parse_feed_date env item = derived_timestamp env item"
proof -
  have "(\<lambda>i. \<not> excluded env cutoff i) =
        (\<lambda>item. case derived_timestamp env item of None \<Rightarrow> True | Some d \<Rightarrow> \<not> d < cutoff)"
    by (auto simp: excluded_def fun_eq_iff split: option.splits)
  then show ?thesis
    by (simp add: fetch_feed_entries_def Let_def collect_entries_filter parse_feed_date_derived)
qed

theorem fetch_feed_entries_cutoff_witness:
  "fst (fetch_feed_entries world ''https://blog.example.org/feed.xml'' 20250101 []) =
     map (make_entry world) [item_recent, item_undated]
   \<and> parse_feed_date world item_updated = Some 20250201"
  using fetch_feed_entries_cutoff [of world "''https://blog.example.org/feed.xml''" 20250101 "[]" item_updated]
  by (simp add: world_def world_feed_def world_datetime_def derived_timestamp_def
      field_instant_def item_recent_def item_old_def item_undated_def item_updated_def)

section \<open>Properties of feed discovery\<close>




section \<open>Properties of the crawl of a source\<close>

lemma screenshot_fallback_method:
  "result_method (fst (screenshot_fallback env url r tr)) =
     (if truthy (fst (take_screenshot env url tr)) \<and> \<not> truthy (result_method r)
      then Some ''screenshot'' else result_method r)"
  by (simp add: screenshot_fallback_def default_method_def case_prod_beta)

lemma crawl_source_step_method:
  "result_method (fst st) \<in> {None, Some ''rss'', Some ''screenshot''} \<Longrightarrow>
   result_method (fst (crawl_source_step env cutoff st url)) \<in> {None, Some ''rss'', Some ''screenshot''}"
  by (auto simp: crawl_source_step_def case_prod_beta screenshot_fallback_method)

lemma crawl_source_loop_method:
  "result_method (fst st) \<in> {None, Some ''rss'', Some ''screenshot''} \<Longrightarrow>
   result_method (fst (foldl (crawl_source_step env cutoff) st urls)) \<in> {None, Some ''rss'', Some ''screenshot''}"
proof (induction urls arbitrary: st)
  case Nil
  then show ?case by simp
next
  case (Cons u us)
  from Cons.prems
  have "result_method (fst (crawl_source_step env cutoff st u)) \<in> {None, Some ''rss'', Some ''screenshot''}"
    by (rule crawl_source_step_method)
  then have "result_method (fst (foldl (crawl_source_step env cutoff) (crawl_source_step env cutoff st u) us))
      \<in> {None, Some ''rss'', Some ''screenshot''}"
    by (rule Cons.IH)
  then show ?case by simp
qed

lemma rss_only_step_method:
  "result_method (fst st) \<in> {None, Some ''rss''} \<Longrightarrow>
   result_method (fst (rss_only_step env cutoff st url)) \<in> {None, Some ''rss''}"
  by (auto simp: rss_only_step_def case_prod_beta)

lemma rss_only_loop_method:
  "result_method (fst st) \<in> {None, Some ''rss''} \<Longrightarrow>
   result_method (fst (foldl (rss_only_step env cutoff) st urls)) \<in> {None, Some ''rss''}"
proof (induction urls arbitrary: st)
  case Nil
  then show ?case by simp
next
  case (Cons u us)
  from Cons.prems
  have "result_method (fst (rss_only_step env cutoff st u)) \<in> {None, Some ''rss''}"
    by (rule rss_only_step_method)
  then have "result_method (fst (foldl (rss_only_step env cutoff) (rss_only_step env cutoff st u) us))
      \<in> {None, Some ''rss''}"
    by (rule Cons.IH)
  then show ?case by simp
qed

lemma crawl_source_method:
  "result_method (fst (crawl_source env name urls cutoff tr)) \<in> {Some ''rss'', Some ''screenshot'', Some ''failed''}"
  using crawl_source_loop_method [of "(new_result name urls, tr)" env cutoff urls]
  by (auto simp: crawl_source_def new_result_def default_method_def truthy_def split: prod.splits)

lemma crawl_rss_only_method:
  "result_method (fst (crawl_rss_only env name urls cutoff tr)) \<in> {Some ''rss'', Some ''no_feed''}"
  using rss_only_loop_method [of "(new_result name urls, tr)" env cutoff urls]
  by (auto simp: crawl_rss_only_def new_result_def default_method_def truthy_def split: prod.splits)

lemma skipped_loop:
  "\<forall>u\<in>set urls. should_skip env u \<Longrightarrow> foldl (crawl_source_step env cutoff) st urls = st"
  by (induction urls arbitrary: st) (auto simp: crawl_source_step_def split: prod.splits)

lemma skipped_loop_rss_only:
  "\<forall>u\<in>set urls. should_skip env u \<Longrightarrow> foldl (rss_only_step env cutoff) st urls = st"
  by (induction urls arbitrary: st) (auto simp: rss_only_step_def split: prod.splits)





section \<open>Properties of the session\<close>

lemma crawl_all_results:
  "\<exists>new. fst (crawl_all env ns cutoff srcs results tr) = results @ new \<and> length new = length srcs \<and>
     (\<forall>r\<in>set new. result_method r \<in> {Some ''rss'', Some ''screenshot'', Some ''failed'', Some ''no_feed''})"
proof (induction srcs arbitrary: results tr)
  case Nil
  show ?case by simp
next
  case (Cons src rest)
  define step where "step = (if ns then crawl_rss_only env (fst src) (snd src) cutoff tr
            else crawl_source env (fst src) (snd src) cutoff tr)"
  have m: "result_method (fst step) \<in> {Some ''rss'', Some ''screenshot'', Some ''failed'', Some ''no_feed''}"
    using crawl_source_method [of env "fst src" "snd src" cutoff tr]
      crawl_rss_only_method [of env "fst src" "snd src" cutoff tr]
    by (auto simp: step_def)
  obtain new where new: "fst (crawl_all env ns cutoff rest (results @ [fst step]) (snd step)) = (results @ [fst step]) @ new"
     "length new = length rest"
     "\<forall>r\<in>set new. result_method r \<in> {Some ''rss'', Some ''screenshot'', Some ''failed'', Some ''no_feed''}"
    using Cons.IH [of "results @ [fst step]" "snd step"] by blast
  have "fst (crawl_all env ns cutoff (src # rest) results tr) = results @ (fst step # new)"
    using new(1) by (simp add: step_def case_prod_beta)
  with new(2,3) m show ?case
    by (intro exI [of _ "fst step # new"]) simp
qed

lemma counts_add_up:
  "\<forall>r\<in>set rs. result_method r \<in> {Some ''rss'', Some ''screenshot'', Some ''failed'', Some ''no_feed''} \<Longrightarrow>
   rss_count rs + screenshot_count rs + failed_count rs = length rs"
  by (induction rs) (auto simp: rss_count_def screenshot_count_def failed_count_def)

lemma total_entries_concat: "total_entries rs = length (concat (map new_entries rs))"
  by (induction rs) (simp_all add: total_entries_def)

text \<open>
  Claim C9. For every session, in either mode: the number of records with the method
  \<^verbatim>\<open>rss\<close>, plus the number with \<^verbatim>\<open>screenshot\<close>, plus the number with \<^verbatim>\<open>failed\<close> or
  \<^verbatim>\<open>no_feed\<close>, is the number of records; the reported number of entries is the number
  of entries of all records together; and there is one record for each source.
\<close>

theorem summary_counters:
  "rss_count (fst (crawl_all env no_screenshots cutoff sources [] tr))
     + screenshot_count (fst (crawl_all env no_screenshots cutoff sources [] tr))
     + failed_count (fst (crawl_all env no_screenshots cutoff sources [] tr))
     = length (fst (crawl_all env no_screenshots cutoff sources [] tr))
   \<and> total_entries (fst (crawl_all env no_screenshots cutoff sources [] tr))
     = length (concat (map new_entries (fst (crawl_all env no_screenshots cutoff sources [] tr))))
   \<and> length (fst (crawl_all env no_screenshots cutoff sources [] tr)) = length sources"
  using crawl_all_results [of env no_screenshots cutoff sources "[]" tr] counts_add_up
  by (auto simp: total_entries_concat)

section \<open>The trace of a crawl\<close>

lemma extends_by_refl: "extends_by Q tr tr"
  by (simp add: extends_by_def)

lemma extends_by_snoc: "Q tr ev \<Longrightarrow> extends_by Q tr (tr @ [ev])"
  by (simp add: extends_by_def)

lemma extends_by_trans:
  assumes "extends_by Q tr tr1" and "extends_by Q tr1 tr2"
  shows "extends_by Q tr tr2"
proof -
  from assms(1) obtain n1 where n1: "tr1 = tr @ n1"
    and q1: "\<forall>i<length n1. Q (tr @ take i n1) (n1 ! i)"
    by (auto simp: extends_by_def)
  from assms(2) obtain n2 where n2: "tr2 = tr1 @ n2"
    and q2: "\<forall>i<length n2. Q (tr1 @ take i n2) (n2 ! i)"
    by (auto simp: extends_by_def)
  have "Q (tr @ take i (n1 @ n2)) ((n1 @ n2) ! i)" if "i < length (n1 @ n2)" for i
  proof (cases "i < length n1")
    case True
    with q1 show ?thesis by (simp add: nth_append)
  next
    case False
    with that have "i - length n1 < length n2" by simp
    with q2 have "Q (tr1 @ take (i - length n1) n2) (n2 ! (i - length n1))" by simp
    with False show ?thesis by (simp add: nth_append n1)
  qed
  then show ?thesis
    unfolding extends_by_def by (intro exI [of _ "n1 @ n2"]) (simp add: n1 n2)
qed

lemma extends_by_mono:
  "extends_by Q tr tr' \<Longrightarrow> (\<And>pre ev. Q pre ev \<Longrightarrow> Q' pre ev) \<Longrightarrow> extends_by Q' tr tr'"
  by (auto simp: extends_by_def)

lemma extends_by_prefix: "extends_by Q tr tr' \<Longrightarrow> prefix tr tr'"
  by (auto simp: extends_by_def)

lemma html_trace: "extends_by (caused_by env url) tr (snd (discover_feed_from_html env url tr))"
  by (auto simp: discover_feed_from_html_def Let_def intro!: extends_by_snoc split: option.splits)

lemma platforms_trace:
  "extends_by (\<lambda>pre ev. \<exists>r. \<exists>p\<in>set ps. ev = Head (snd p url) r) tr
     (snd (probe_platforms env url d ps tr))"
proof (induction ps arbitrary: tr)
  case Nil
  show ?case by (simp add: extends_by_refl)
next
  case (Cons p ps)
  obtain pd mk where p: "p = (pd, mk)" by (cases p)
  let ?Q = "\<lambda>(pre :: event list) ev. \<exists>r. \<exists>q\<in>set (p # ps). ev = Head (snd q url) r"
  have rest: "extends_by ?Q t (snd (probe_platforms env url d ps t))" for t
    by (rule extends_by_mono [OF Cons.IH]) auto
  have one: "extends_by ?Q tr (tr @ [Head (mk url) r])" for r
    by (rule extends_by_snoc) (auto simp: p)
  show ?case
    using rest one extends_by_trans [OF one rest]
    by (auto simp: p Let_def split: option.splits)
qed

lemma well_known_trace:
  "extends_by (\<lambda>pre ev. \<exists>r. \<exists>path\<in>set paths. ev = Head (base @ path) r) tr
     (snd (probe_well_known env base paths tr))"
proof (induction paths arbitrary: tr)
  case Nil
  show ?case by (simp add: extends_by_refl)
next
  case (Cons path paths)
  let ?Q = "\<lambda>(pre :: event list) ev. \<exists>r. \<exists>q\<in>set (path # paths). ev = Head (base @ q) r"
  have rest: "extends_by ?Q t (snd (probe_well_known env base paths t))" for t
    by (rule extends_by_mono [OF Cons.IH]) auto
  have one: "extends_by ?Q tr (tr @ [Head (base @ path) r])" for r
    by (rule extends_by_snoc) auto
  show ?case
    using rest one extends_by_trans [OF one rest]
    by (auto simp: Let_def split: option.splits)
qed

lemma platform_trace: "extends_by (caused_by env url) tr (snd (discover_feed_platform env url tr))"
  unfolding discover_feed_platform_def
  by (rule extends_by_mono [OF platforms_trace]) (force simp: head_candidates_def)

lemma well_known_feed_trace:
  "extends_by (caused_by env url) tr (snd (discover_feed_well_known env url tr))"
  unfolding discover_feed_well_known_def Let_def case_prod_beta
  by (rule extends_by_mono [OF well_known_trace]) (auto simp: head_candidates_def)

lemma discover_feed_trace: "extends_by (caused_by env url) tr (snd (discover_feed env url tr))"
proof -
  let ?a = "discover_feed_from_html env url tr"
  let ?b = "discover_feed_platform env url (snd ?a)"
  let ?c = "discover_feed_well_known env url (snd ?b)"
  have a: "extends_by (caused_by env url) tr (snd ?a)" by (rule html_trace)
  have b: "extends_by (caused_by env url) tr (snd ?b)"
    by (rule extends_by_trans [OF a platform_trace])
  have c: "extends_by (caused_by env url) tr (snd ?c)"
    by (rule extends_by_trans [OF b well_known_feed_trace])
  show ?thesis using a b c
    by (simp add: discover_feed_def case_prod_beta)
qed

lemma fetch_trace: "snd (fetch_feed_entries env f cutoff tr) = tr @ [Parse f]"
  by (simp add: fetch_feed_entries_def Let_def)

lemma take_screenshot_trace: "snd (take_screenshot env url tr) = tr @ [Screenshot url]"
  by (simp add: take_screenshot_def Let_def)

lemma screenshot_fallback_trace: "snd (screenshot_fallback env url r tr) = tr @ [Screenshot url]"
  using take_screenshot_trace [of env url tr]
  by (simp add: screenshot_fallback_def case_prod_beta)

text \<open>
  The feed that is retrieved is the one that the discovery just before returned: the
  event \<open>Parse\<close> is written on the trace that this discovery left.
\<close>

lemma parse_caused:
  assumes "truthy (fst (discover_feed env url tr))"
  shows "caused_by env url (snd (discover_feed env url tr))
           (Parse (or_empty (fst (discover_feed env url tr))))"
proof -
  from assms obtain f where f: "fst (discover_feed env url tr) = Some f"
    by (auto simp: truthy_def split: option.splits)
  then have d: "discover_feed env url tr = (Some f, snd (discover_feed env url tr))"
    by (metis prod.collapse)
  have "tr \<in> set (prefixes (snd (discover_feed env url tr)))"
    using extends_by_prefix [OF discover_feed_trace] by (simp add: in_set_prefixes)
  with d show ?thesis
    by (auto simp: f or_empty_def list_ex_iff)
qed

lemma crawl_source_step_trace:
  "extends_by (\<lambda>pre ev. \<not> should_skip env url \<and> caused_by env url pre ev) (snd st)
     (snd (crawl_source_step env cutoff st url))"
proof (cases "should_skip env url")
  case True
  then show ?thesis by (simp add: crawl_source_step_def case_prod_beta extends_by_refl)
next
  case False
  let ?Q = "\<lambda>pre ev. \<not> should_skip env url \<and> caused_by env url pre ev"
  let ?d = "discover_feed env url (snd st)"
  have d: "extends_by ?Q (snd st) (snd ?d)"
    by (rule extends_by_mono [OF discover_feed_trace]) (simp add: False)
  have s: "extends_by ?Q t (t @ [Screenshot url])" for t
    by (rule extends_by_snoc) (simp add: False)
  show ?thesis
  proof (cases "truthy (fst ?d)")
    case no: False
    with d extends_by_trans [OF d s] show ?thesis
      by (simp add: crawl_source_step_def case_prod_beta False screenshot_fallback_trace)
  next
    case True
    have "caused_by env url (snd ?d) (Parse (or_empty (fst ?d)))"
      by (rule parse_caused [OF True])
    with False have p: "extends_by ?Q (snd ?d) (snd ?d @ [Parse (or_empty (fst ?d))])"
      by (intro extends_by_snoc conjI)
    from extends_by_trans [OF d p] extends_by_trans [OF extends_by_trans [OF d p] s] True
    show ?thesis
      by (simp add: crawl_source_step_def case_prod_beta False fetch_trace screenshot_fallback_trace)
  qed
qed

lemma rss_only_step_trace:
  "extends_by (\<lambda>pre ev. \<not> should_skip env url \<and> caused_by env url pre ev) (snd st)
     (snd (rss_only_step env cutoff st url))"
proof (cases "should_skip env url")
  case True
  then show ?thesis by (simp add: rss_only_step_def case_prod_beta extends_by_refl)
next
  case False
  let ?Q = "\<lambda>pre ev. \<not> should_skip env url \<and> caused_by env url pre ev"
  let ?d = "discover_feed env url (snd st)"
  have d: "extends_by ?Q (snd st) (snd ?d)"
    by (rule extends_by_mono [OF discover_feed_trace]) (simp add: False)
  show ?thesis
  proof (cases "truthy (fst ?d)")
    case no: False
    with d show ?thesis
      by (simp add: rss_only_step_def case_prod_beta False)
  next
    case True
    have "caused_by env url (snd ?d) (Parse (or_empty (fst ?d)))"
      by (rule parse_caused [OF True])
    with False have p: "extends_by ?Q (snd ?d) (snd ?d @ [Parse (or_empty (fst ?d))])"
      by (intro extends_by_snoc conjI)
    from extends_by_trans [OF d p] True show ?thesis
      by (simp add: rss_only_step_def case_prod_beta False fetch_trace)
  qed
qed

lemma caused_allowed:
  "src \<in> set urls \<Longrightarrow> \<not> should_skip env src \<Longrightarrow> caused_by env src pre ev \<Longrightarrow>
   event_allowed env urls pre ev"
  by (auto simp: event_allowed_def list_ex_iff)

lemma event_allowed_mono:
  "set us \<subseteq> set urls \<Longrightarrow> event_allowed env us pre ev \<Longrightarrow> event_allowed env urls pre ev"
  by (auto simp: event_allowed_def list_ex_iff)

lemma loop_trace:
  assumes step: "\<And>st url. extends_by (\<lambda>pre ev. \<not> should_skip env url \<and> caused_by env url pre ev)
      (snd st) (snd (f st url))"
  shows "extends_by (event_allowed env us) (snd st) (snd (foldl f st us))"
proof (induction us arbitrary: st rule: rev_induct)
  case Nil
  show ?case by (simp add: extends_by_refl)
next
  case (snoc u us)
  have a: "extends_by (event_allowed env (us @ [u])) (snd st) (snd (foldl f st us))"
    by (rule extends_by_mono [OF snoc.IH]) (auto intro: event_allowed_mono [of us])
  have b: "extends_by (event_allowed env (us @ [u])) (snd (foldl f st us)) (snd (f (foldl f st us) u))"
    by (rule extends_by_mono [OF step]) (auto intro: caused_allowed)
  show ?case using extends_by_trans [OF a b] by simp
qed

text \<open>The equations that evaluate a crawl in the concrete world.\<close>

lemmas world_eval =
  world_def world_get_def world_head_def world_links_def world_feed_def world_datetime_def
  ok_page_def simple_urlparse_def item_recent_def item_old_def item_undated_def item_updated_def
  should_skip_def domain_of_def SKIP_DOMAINS_def removeprefix_def startswith_def
  discover_feed_def discover_feed_from_html_def discover_feed_platform_def
  discover_feed_well_known_def PLATFORM_FEED_PATTERNS_def WELL_KNOWN_FEED_PATHS_def
  raises_for_status_def or_empty_def truthy_def lower_def lower_char_def
  fetch_feed_entries_def parse_feed_date_def
  take_screenshot_def screenshot_fallback_def default_method_def new_result_def
  crawl_source_def crawl_source_step_def crawl_rss_only_def rss_only_step_def
  head_candidates_def rstrip_chars_def Let_def char_of_def bit_Suc_0_iff

text \<open>
  Claim C4, as the code has it. During the crawl of a source, in either mode, every
  event of the trace is caused by a URL of the source that \<^verbatim>\<open>should_skip\<close> lets
  through (its netloc, without a leading \<^verbatim>\<open>www.\<close>, is not in the skip-list): every
  page GET and every screenshot is of such a URL, every HEAD probe is of a candidate
  built from such a URL, and every feed that is retrieved is the feed that the
  discovery on such a URL has just returned. A source all of whose URLs
  \<^verbatim>\<open>should_skip\<close> rejects causes no call at all. The feed URL that discovery returns
  is itself not checked against the skip-list.
\<close>

theorem crawl_trace_allowed:
  "(\<exists>new. snd (crawl_source env name urls cutoff tr) = tr @ new \<and>
       (\<forall>i<length new. event_allowed env urls (tr @ take i new) (new ! i)))
   \<and> (\<exists>new. snd (crawl_rss_only env name urls cutoff tr) = tr @ new \<and>
       (\<forall>i<length new. event_allowed env urls (tr @ take i new) (new ! i)))
   \<and> ((\<forall>u\<in>set urls. should_skip env u) \<longrightarrow>
        snd (crawl_source env name urls cutoff tr) = tr \<and>
        snd (crawl_rss_only env name urls cutoff tr) = tr)"
  using loop_trace [of env "crawl_source_step env cutoff" urls "(new_result name urls, tr)", OF crawl_source_step_trace]
    loop_trace [of env "rss_only_step env cutoff" urls "(new_result name urls, tr)", OF rss_only_step_trace]
  by (simp add: crawl_source_def crawl_rss_only_def case_prod_beta extends_by_def
      skipped_loop skipped_loop_rss_only)

theorem crawl_trace_allowed_witness:
  "should_skip world ''https://nitter.net/a''
   \<and> snd (crawl_source world ''Old'' [''https://nitter.net/a'', ''https://old.example.org''] 20250101 []) =
       [Get ''https://old.example.org'' (Some (ok_page ''old'')),
        Parse ''https://old.example.org/rss'',
        Screenshot ''https://old.example.org'']
   \<and> event_allowed world [''https://nitter.net/a'', ''https://old.example.org'']
       [Get ''https://old.example.org'' (Some (ok_page ''old''))]
       (Parse ''https://old.example.org/rss'')
   \<and> snd (crawl_source world ''Nitter'' [''https://nitter.net/a''] 20250101 []) = []"
proof -
  let ?urls = "[''https://nitter.net/a'', ''https://old.example.org'']"
  let ?events = "[Get ''https://old.example.org'' (Some (ok_page ''old'')),
        Parse ''https://old.example.org/rss'', Screenshot ''https://old.example.org'']"
  have s: "should_skip world ''https://nitter.net/a''"
    by (simp add: world_eval)
  have t: "snd (crawl_source world ''Old'' ?urls 20250101 []) = ?events"
    by (simp add: world_eval)
  from crawl_trace_allowed [of world "''Old''" ?urls 20250101 "[]"]
  obtain new where n: "snd (crawl_source world ''Old'' ?urls 20250101 []) = [] @ new"
    and a: "\<forall>i<length new. event_allowed world ?urls ([] @ take i new) (new ! i)"
    by blast
  from n t have new: "new = ?events" by simp
  have "1 < length new" by (simp add: new)
  with a have "event_allowed world ?urls ([] @ take 1 new) (new ! 1)"
    by blast
  then have p: "event_allowed world ?urls [Get ''https://old.example.org'' (Some (ok_page ''old''))]
      (Parse ''https://old.example.org/rss'')"
    by (simp add: new)
  from crawl_trace_allowed [of world "''Nitter''" "[''https://nitter.net/a'']" 20250101 "[]"] s
  have e: "snd (crawl_source world ''Nitter'' [''https://nitter.net/a''] 20250101 []) = []"
    by simp
  from s t p e show ?thesis by (intro conjI)
qed

text \<open>
  Claim C4 as stated fails. The page of a URL that is not skip-listed may advertise a
  feed on a skip-listed host, and that feed URL is passed to the feed retrieval. And
  the test of \<^verbatim>\<open>should_skip\<close> is on the netloc: a URL of the host
  \<^verbatim>\<open>nitter.net\<close> that names a port is not rejected, and is fetched.
\<close>

theorem crawl_skip_list_counterexample:
  "\<not> should_skip world ''https://news.example.org''
   \<and> snd (crawl_source world ''News'' [''https://news.example.org''] 20250101 []) =
       [Get ''https://news.example.org'' (Some (ok_page ''news'')),
        Parse ''https://nitter.net/news/rss'',
        Screenshot ''https://news.example.org'']
   \<and> should_skip world ''https://nitter.net/news/rss''
   \<and> take 1 (snd (crawl_source world ''Port'' [''https://nitter.net:443/x''] 20250101 [])) =
       [Get ''https://nitter.net:443/x'' None]"
  by (simp add: world_eval)
section \<open>RSS hits and the screenshot fallback\<close>

lemma discover_feed_Some: "discover_feed env url tr = (Some f, tr') \<Longrightarrow> f \<noteq> []"
  by (auto simp: discover_feed_def truthy_def split: prod.splits if_splits option.splits)

lemma crawl_source_step_rss:
  assumes "\<not> should_skip env u" "discover_feed env u tr = (Some f, tr1)"
    and "fetch_feed_entries env f cutoff tr1 = (es, tr2)" "es \<noteq> []"
  shows "crawl_source_step env cutoff (r, tr) u =
     (r\<lparr>result_method := Some ''rss'', result_feed_url := Some f, new_entries := new_entries r @ es\<rparr>, tr2)"
  using assms discover_feed_Some [OF assms(2)]
  by (simp add: crawl_source_step_def truthy_def or_empty_def)

lemma rss_only_step_rss:
  assumes "\<not> should_skip env u" "discover_feed env u tr = (Some f, tr1)"
    and "fetch_feed_entries env f cutoff tr1 = (es, tr2)" "es \<noteq> []"
  shows "rss_only_step env cutoff (r, tr) u =
     (r\<lparr>result_method := Some ''rss'', result_feed_url := Some f, new_entries := new_entries r @ es\<rparr>, tr2)"
  using assms discover_feed_Some [OF assms(2)]
  by (simp add: rss_only_step_def truthy_def or_empty_def)

text \<open>
  Claim C7. For a source with two URLs that are not skip-listed, the first leading to a
  feed with two entries at or after the cutoff and the second to a feed with one, the
  crawl returns, in either mode, a record with the method \<^verbatim>\<open>rss\<close> and exactly the
  three entries, those of the first URL before that of the second: the hit on the first
  URL does not stop the loop, whose trace ends with the calls made for the second URL.
\<close>

theorem crawl_two_feeds:
  assumes "\<not> should_skip env u1" and "\<not> should_skip env u2"
    and "discover_feed env u1 tr = (Some f1, tr1)"
    and "fetch_feed_entries env f1 cutoff tr1 = (es1, tr2)" and "length es1 = 2"
    and "discover_feed env u2 tr2 = (Some f2, tr3)"
    and "fetch_feed_entries env f2 cutoff tr3 = (es2, tr4)" and "length es2 = 1"
  shows "crawl_source env name [u1, u2] cutoff tr =
           (\<lparr>result_name = name, result_urls = [u1, u2], result_method = Some ''rss'',
             result_feed_url = Some f2, new_entries = es1 @ es2, screenshots = []\<rparr>, tr4)
         \<and> crawl_rss_only env name [u1, u2] cutoff tr =
           (\<lparr>result_name = name, result_urls = [u1, u2], result_method = Some ''rss'',
             result_feed_url = Some f2, new_entries = es1 @ es2, screenshots = []\<rparr>, tr4)
         \<and> length (es1 @ es2) = 3"
proof -
  from assms(5,8) have ne: "es1 \<noteq> []" "es2 \<noteq> []" by auto
  show ?thesis
    using assms(5,8)
    by (simp add: crawl_source_def crawl_rss_only_def
        crawl_source_step_rss [OF assms(1) assms(3) assms(4) ne(1)]
        crawl_source_step_rss [OF assms(2) assms(6) assms(7) ne(2)]
        rss_only_step_rss [OF assms(1) assms(3) assms(4) ne(1)]
        rss_only_step_rss [OF assms(2) assms(6) assms(7) ne(2)]
        new_result_def default_method_def truthy_def)
qed

theorem crawl_two_feeds_witness:
  "crawl_source world ''Blog'' [''https://blog.example.org'', ''https://notes.example.org/''] 20250101 [] =
     (\<lparr>result_name = ''Blog'',
       result_urls = [''https://blog.example.org'', ''https://notes.example.org/''],
       result_method = Some ''rss'',
       result_feed_url = Some ''https://notes.example.org/atom.xml'',
       new_entries = [make_entry world item_recent, make_entry world item_undated] @ [make_entry world item_updated],
       screenshots = []\<rparr>,
      [Get ''https://blog.example.org'' (Some (ok_page ''blog'')),
       Parse ''https://blog.example.org/feed.xml'',
       Get ''https://notes.example.org/'' (Some (ok_page ''notes'')),
       Parse ''https://notes.example.org/atom.xml''])"
proof -
  have s1: "\<not> should_skip world ''https://blog.example.org''"
    and s2: "\<not> should_skip world ''https://notes.example.org/''"
    by (simp_all add: world_eval)
  have d1: "discover_feed world ''https://blog.example.org'' [] =
      (Some ''https://blog.example.org/feed.xml'', [Get ''https://blog.example.org'' (Some (ok_page ''blog''))])"
    by (simp add: world_eval)
  have f1: "fetch_feed_entries world ''https://blog.example.org/feed.xml'' 20250101
        [Get ''https://blog.example.org'' (Some (ok_page ''blog''))] =
      ([make_entry world item_recent, make_entry world item_undated],
       [Get ''https://blog.example.org'' (Some (ok_page ''blog'')), Parse ''https://blog.example.org/feed.xml''])"
    by (simp add: world_def world_feed_def fetch_feed_entries_def parse_feed_date_def
        world_datetime_def item_recent_def item_old_def item_undated_def Let_def)
  have d2: "discover_feed world ''https://notes.example.org/''
        [Get ''https://blog.example.org'' (Some (ok_page ''blog'')), Parse ''https://blog.example.org/feed.xml''] =
      (Some ''https://notes.example.org/atom.xml'',
       [Get ''https://blog.example.org'' (Some (ok_page ''blog'')), Parse ''https://blog.example.org/feed.xml'',
        Get ''https://notes.example.org/'' (Some (ok_page ''notes''))])"
    by (simp add: world_eval)
  have f2: "fetch_feed_entries world ''https://notes.example.org/atom.xml'' 20250101
        [Get ''https://blog.example.org'' (Some (ok_page ''blog'')), Parse ''https://blog.example.org/feed.xml'',
         Get ''https://notes.example.org/'' (Some (ok_page ''notes''))] =
      ([make_entry world item_updated],
       [Get ''https://blog.example.org'' (Some (ok_page ''blog'')), Parse ''https://blog.example.org/feed.xml'',
        Get ''https://notes.example.org/'' (Some (ok_page ''notes'')), Parse ''https://notes.example.org/atom.xml''])"
    by (simp add: world_def world_feed_def fetch_feed_entries_def parse_feed_date_def
        world_datetime_def item_updated_def Let_def)
  from crawl_two_feeds [OF s1 s2 d1 f1 _ d2 f2, of "''Blog''"] show ?thesis by simp
qed

text \<open>
  Claim C10. In full mode, when the loop of \<^verbatim>\<open>crawl_source\<close> reaches a URL that is not
  skip-listed, discovery returns a feed URL for it and the feed has no entry at or
  after the cutoff, the next call of the crawl is \<^verbatim>\<open>take_screenshot\<close> on that URL.
\<close>

theorem screenshot_after_empty_feed:
  assumes "k < length urls"
    and "foldl (crawl_source_step env cutoff) (new_result name urls, tr) (take k urls) = (r0, tr0)"
    and "\<not> should_skip env (urls ! k)"
    and "discover_feed env (urls ! k) tr0 = (Some f, tr1)"
    and "fetch_feed_entries env f cutoff tr1 = ([], tr2)"
  shows "\<exists>rest. snd (crawl_source env name urls cutoff tr) = tr2 @ Screenshot (urls ! k) # rest"
proof -
  let ?step = "crawl_source_step env cutoff"
  let ?u = "urls ! k"
  have urls: "urls = take k urls @ ?u # drop (Suc k) urls"
    using assms(1) by (simp add: id_take_nth_drop)
  have "snd (?step (r0, tr0) ?u) = tr2 @ [Screenshot ?u]"
    using assms(3,4,5) discover_feed_Some [OF assms(4)]
    by (simp add: crawl_source_step_def truthy_def or_empty_def screenshot_fallback_trace)
  moreover have "extends_by (event_allowed env (drop (Suc k) urls)) (snd (?step (r0, tr0) ?u))
      (snd (foldl ?step (?step (r0, tr0) ?u) (drop (Suc k) urls)))"
    by (rule loop_trace [OF crawl_source_step_trace])
  moreover have "foldl ?step (new_result name urls, tr) urls =
      foldl ?step (?step (r0, tr0) ?u) (drop (Suc k) urls)"
  proof -
    have "foldl ?step (new_result name urls, tr) (take k urls @ ?u # drop (Suc k) urls) =
        foldl ?step (?step (r0, tr0) ?u) (drop (Suc k) urls)"
      using assms(2) by simp
    then show ?thesis
      by (simp only: id_take_nth_drop [OF assms(1), symmetric])
  qed
  ultimately show ?thesis
    by (auto simp: crawl_source_def case_prod_beta extends_by_def)
qed

theorem screenshot_after_empty_feed_witness:
  "snd (crawl_source world ''Old'' [''https://nitter.net/a'', ''https://old.example.org''] 20250101 []) =
     [Get ''https://old.example.org'' (Some (ok_page ''old'')), Parse ''https://old.example.org/rss'']
       @ [Screenshot ''https://old.example.org'']
   \<and> fst (fetch_feed_entries world ''https://old.example.org/rss'' 20250101
        [Get ''https://old.example.org'' (Some (ok_page ''old''))]) = []"
proof -
  let ?urls = "[''https://nitter.net/a'', ''https://old.example.org'']"
  have k: "(1::nat) < length ?urls" by simp
  have pre: "foldl (crawl_source_step world 20250101) (new_result ''Old'' ?urls, []) (take 1 ?urls) =
      (new_result ''Old'' ?urls, [])"
    by (simp add: world_eval)
  have s: "\<not> should_skip world (?urls ! 1)" by (simp add: world_eval)
  have d: "discover_feed world (?urls ! 1) [] =
      (Some ''https://old.example.org/rss'', [Get ''https://old.example.org'' (Some (ok_page ''old''))])"
    by (simp add: world_eval)
  have f: "fetch_feed_entries world ''https://old.example.org/rss'' 20250101
        [Get ''https://old.example.org'' (Some (ok_page ''old''))] =
      ([], [Get ''https://old.example.org'' (Some (ok_page ''old'')), Parse ''https://old.example.org/rss''])"
    by (simp add: world_def world_feed_def fetch_feed_entries_def parse_feed_date_def
        world_datetime_def item_old_def Let_def)
  from screenshot_after_empty_feed [OF k pre s d f]
  obtain rest where "snd (crawl_source world ''Old'' ?urls 20250101 []) =
      [Get ''https://old.example.org'' (Some (ok_page ''old'')), Parse ''https://old.example.org/rss'']
        @ Screenshot (?urls ! 1) # rest" by blast
  moreover have "snd (crawl_source world ''Old'' ?urls 20250101 []) =
      [Get ''https://old.example.org'' (Some (ok_page ''old'')), Parse ''https://old.example.org/rss'',
       Screenshot ''https://old.example.org'']"
    by (simp add: world_eval)
  ultimately show ?thesis using f by simp
qed

section \<open>Properties of the summaries\<close>

lemma single_spaced_Cons:
  "ys \<noteq> [] \<Longrightarrow> single_spaced (c # ys) =
     ((if isspace c then c = CHR '' '' \<and> \<not> isspace (hd ys) else True) \<and> single_spaced ys)"
  by (cases ys) simp_all

lemma collapse_eq_Nil: "collapse_whitespace s = [] \<longleftrightarrow> s = []"
  by (cases s) simp_all

lemma hd_collapse: "s \<noteq> [] \<Longrightarrow> \<not> isspace (hd s) \<Longrightarrow> hd (collapse_whitespace s) = hd s"
  by (cases s) simp_all

lemma last_dropWhile:
  assumes "dropWhile P xs \<noteq> []"
  shows "last (dropWhile P xs) = last xs"
proof -
  have "last (takeWhile P xs @ dropWhile P xs) = last (dropWhile P xs)"
    using assms by (simp only: last_append if_False)
  then show ?thesis by simp
qed

lemma dropWhile_last_ne: "xs \<noteq> [] \<Longrightarrow> \<not> P (last xs) \<Longrightarrow> dropWhile P xs \<noteq> []"
  by (auto simp: dropWhile_eq_Nil_conv)

lemma single_spaced_collapse:
  "s = [] \<or> \<not> isspace (last s) \<Longrightarrow> single_spaced (collapse_whitespace s)"
proof (induction s rule: collapse_whitespace.induct)
  case 1
  show ?case by simp
next
  case (2 c cs)
  show ?case
  proof (cases "isspace c")
    case True
    let ?rest = "dropWhile isspace cs"
    from "2.prems" True have cs: "cs \<noteq> []" "\<not> isspace (last cs)"
      by (auto split: if_splits)
    then have ne: "?rest \<noteq> []" by (rule dropWhile_last_ne)
    then have "\<not> isspace (last ?rest)" using cs(2) by (simp add: last_dropWhile)
    then have ih: "single_spaced (collapse_whitespace ?rest)"
      using "2.IH"(1) [OF True] by simp
    have "\<not> isspace (hd ?rest)" using ne by (rule hd_dropWhile)
    then have "\<not> isspace (hd (collapse_whitespace ?rest))" using ne by (simp add: hd_collapse)
    with ih ne True show ?thesis
      by (simp add: single_spaced_Cons collapse_eq_Nil)
  next
    case False
    show ?thesis
    proof (cases "cs = []")
      case True
      with False show ?thesis by simp
    next
      case ne: False
      with "2.prems" have "\<not> isspace (last cs)" by simp
      then have "single_spaced (collapse_whitespace cs)"
        using "2.IH"(2) [OF False] by simp
      with False ne show ?thesis
        by (simp add: single_spaced_Cons collapse_eq_Nil)
    qed
  qed
qed

lemma strip_edges:
  "strip s = [] \<or> (\<not> isspace (hd (strip s)) \<and> \<not> isspace (last (strip s)))"
proof (cases "strip s = []")
  case True
  then show ?thesis by simp
next
  case False
  let ?a = "dropWhile isspace s"
  let ?d = "dropWhile isspace (rev ?a)"
  have b: "strip s = rev ?d" by (simp add: strip_def rstrip_def lstrip_def)
  with False have d_ne: "?d \<noteq> []" by simp
  then have "\<not> isspace (hd ?d)" by (rule hd_dropWhile)
  then have l: "\<not> isspace (last (strip s))" using d_ne by (simp add: b last_rev)
  have "rev ?a = takeWhile isspace (rev ?a) @ ?d" by simp
  then have "?a = rev ?d @ rev (takeWhile isspace (rev ?a))"
    by (metis rev_append rev_rev_ident)
  then have "\<exists>z. ?a = strip s @ z" unfolding b by (rule exI)
  then obtain z where a: "?a = strip s @ z" ..
  with False have a_ne: "?a \<noteq> []" by simp
  from a False have "hd ?a = hd (strip s)" by simp
  moreover have "\<not> isspace (hd ?a)" using a_ne by (rule hd_dropWhile)
  ultimately show ?thesis using l by simp
qed

lemma single_spaced_take_append:
  "single_spaced t \<Longrightarrow> single_spaced sfx \<Longrightarrow> sfx \<noteq> [] \<Longrightarrow> \<not> isspace (hd sfx) \<Longrightarrow>
   single_spaced (take n t @ sfx)"
proof (induction t arbitrary: n rule: single_spaced.induct)
  case 1
  then show ?case by simp
next
  case (2 c)
  then show ?case by (cases n) (simp_all add: single_spaced_Cons)
next
  case (3 c d cs)
  show ?case
  proof (cases n)
    case 0
    with 3 show ?thesis by simp
  next
    case (Suc m)
    from "3.prems" have sd: "single_spaced (d # cs)" by simp
    have ih: "single_spaced (take m (d # cs) @ sfx)"
      by (rule "3.IH" [OF sd "3.prems"(2,3,4)])
    have ne: "take m (d # cs) @ sfx \<noteq> []" using "3.prems"(3) by simp
    have hd: "hd (take m (d # cs) @ sfx) = (if m = 0 then hd sfx else d)"
      by (cases m) simp_all
    have "single_spaced (c # (take m (d # cs) @ sfx))"
      unfolding single_spaced_Cons [OF ne] hd
      using "3.prems"(1,4) ih by (auto split: if_splits)
    then show ?thesis by (simp add: Suc)
  qed
qed

lemma first_take_append:
  "t \<noteq> [] \<Longrightarrow> 0 < n \<Longrightarrow>
   (case take n t @ sfx of [] \<Rightarrow> True | c # cs \<Rightarrow> \<not> isspace c) = (\<not> isspace (hd t))"
  by (cases t; cases n) simp_all

lemma whitespace_normalized_clean: "whitespace_normalized (clean_summary env txt)"
proof -
  let ?s = "strip (get_text env txt)"
  let ?t = "collapse_whitespace ?s"
  have e: "?s = [] \<or> (\<not> isspace (hd ?s) \<and> \<not> isspace (last ?s))" by (rule strip_edges)
  then have ss: "single_spaced ?t" by (auto intro: single_spaced_collapse)
  have hd: "?t = [] \<or> \<not> isspace (hd ?t)"
    using e by (auto simp: hd_collapse collapse_eq_Nil)
  show ?thesis
  proof (cases "300 < length ?t")
    case False
    with ss hd show ?thesis
      by (auto simp: clean_summary_def whitespace_normalized_def Let_def split: list.splits)
  next
    case True
    then have ne: "?t \<noteq> []" by auto
    have "single_spaced (take 300 ?t @ ''...'')"
      by (rule single_spaced_take_append [OF ss]) (simp_all add: isspace_def)
    moreover have "(case take 300 ?t @ ''...'' of [] \<Rightarrow> True | c # cs \<Rightarrow> \<not> isspace c)"
      using hd ne by (simp add: first_take_append)
    ultimately show ?thesis using True
      by (simp add: clean_summary_def whitespace_normalized_def Let_def)
  qed
qed

lemma length_clean_summary: "length (clean_summary env txt) \<le> 303"
  by (simp add: clean_summary_def Let_def)

text \<open>
  Claim C5, as the code has it. Every entry that \<^verbatim>\<open>fetch_feed_entries\<close> produces has a
  summary of at most 303 characters: the text that the HTML parser extracts from the raw
  summary of an entry of the feed, stripped, with every run of whitespace collapsed to
  one space, and, when that is longer than 300 characters, cut to its first 300
  characters followed by the three characters of the ellipsis. The summary has no
  whitespace at either end and no whitespace inside but single spaces.
\<close>

theorem entry_summary_bounded:
  "\<forall>e \<in> set (fst (fetch_feed_entries env feed_url cutoff tr)).
      length (entry_summary e) \<le> 303 \<and> whitespace_normalized (entry_summary e) \<and>
      (\<exists>item \<in> set (feed_entries (feedparser_parse env tr feed_url)).
         entry_summary e =
           (let t = collapse_whitespace (strip (get_text env (or_empty (item_summary item))))
            in if length t \<le> 300 then t else take 300 t @ ''...''))"
proof
  fix e
  assume "e \<in> set (fst (fetch_feed_entries env feed_url cutoff tr))"
  then obtain item where item: "item \<in> set (feed_entries (feedparser_parse env tr feed_url))"
    and e: "e = make_entry env item"
    by (auto simp: fetch_feed_entries_def Let_def collect_entries_filter split: if_splits)
  have s: "entry_summary e = clean_summary env (or_empty (item_summary item))"
    by (simp add: e make_entry_def)
  have "clean_summary env (or_empty (item_summary item)) =
      (let t = collapse_whitespace (strip (get_text env (or_empty (item_summary item))))
       in if length t \<le> 300 then t else take 300 t @ ''...'')"
    by (auto simp: clean_summary_def Let_def)
  with item s show "length (entry_summary e) \<le> 303 \<and> whitespace_normalized (entry_summary e) \<and>
      (\<exists>item \<in> set (feed_entries (feedparser_parse env tr feed_url)).
         entry_summary e =
           (let t = collapse_whitespace (strip (get_text env (or_empty (item_summary item))))
            in if length t \<le> 300 then t else take 300 t @ ''...''))"
    using length_clean_summary [of env "or_empty (item_summary item)"]
      whitespace_normalized_clean [of env "or_empty (item_summary item)"]
    by (auto simp only:)
qed

theorem entry_summary_bounded_witness:
  "make_entry world item_undated \<in>
     set (fst (fetch_feed_entries world ''https://blog.example.org/feed.xml'' 20250101 []))
   \<and> length (entry_summary (make_entry world item_undated)) \<le> 303
   \<and> whitespace_normalized (entry_summary (make_entry world item_undated))"
proof -
  have m: "make_entry world item_undated \<in>
     set (fst (fetch_feed_entries world ''https://blog.example.org/feed.xml'' 20250101 []))"
    by (simp add: world_def world_feed_def fetch_feed_entries_def parse_feed_date_def
        world_datetime_def item_recent_def item_old_def item_undated_def Let_def)
  from entry_summary_bounded [of world "''https://blog.example.org/feed.xml''" 20250101 "[]"] m
  show ?thesis by blast
qed

text \<open>
  Claim C5 as stated fails: the second entry kept from the feed of the concrete world
  has a summary of 303 characters, three more than 300.
\<close>

theorem entry_summary_300_counterexample:
  "map (\<lambda>e. length (entry_summary e))
     (fst (fetch_feed_entries world ''https://blog.example.org/feed.xml'' 20250101 [])) = [10, 303]"
  by code_simp

lemma hello_world_cleaned:
  "(let clean = strip (''Hello   world '' @ replicate 400 (CHR ''x''));
        clean = collapse_whitespace clean
    in if length clean > 300 then take 300 clean @ ''...'' else clean) =
   ''Hello world '' @ replicate 288 (CHR ''x'') @ ''...''"
  by code_simp

text \<open>
  Claim C6. When the HTML parser extracts from \<^verbatim>\<open><p>Hello   world</p>\<close> followed by
  400 times \<^verbatim>\<open>x\<close> the two text nodes joined by one space, the cleaned summary is
  \<^verbatim>\<open>Hello world\<close>, a space, 288 times \<^verbatim>\<open>x\<close> and the ellipsis \<^verbatim>\<open>...\<close>: 303
  characters, without markup, the run of three spaces collapsed to one. In general a
  cleaned text of more than 300 characters is cut to its first 300 characters followed
  by the ellipsis.
\<close>

theorem clean_summary_truncation:
  "(get_text env (''<p>Hello   world</p>'' @ replicate 400 (CHR ''x'')) =
        ''Hello   world '' @ replicate 400 (CHR ''x'') \<longrightarrow>
      clean_summary env (''<p>Hello   world</p>'' @ replicate 400 (CHR ''x'')) =
        ''Hello world '' @ replicate 288 (CHR ''x'') @ ''...''
      \<and> length (clean_summary env (''<p>Hello   world</p>'' @ replicate 400 (CHR ''x''))) = 303)
   \<and> (300 < length (collapse_whitespace (strip (get_text env txt))) \<longrightarrow>
      clean_summary env txt = take 300 (collapse_whitespace (strip (get_text env txt))) @ ''...''
      \<and> length (clean_summary env txt) = 303)"
proof (intro conjI impI)
  assume h: "get_text env (''<p>Hello   world</p>'' @ replicate 400 (CHR ''x'')) =
        ''Hello   world '' @ replicate 400 (CHR ''x'')"
  show c: "clean_summary env (''<p>Hello   world</p>'' @ replicate 400 (CHR ''x'')) =
        ''Hello world '' @ replicate 288 (CHR ''x'') @ ''...''"
    unfolding clean_summary_def h by (rule hello_world_cleaned)
  show "length (clean_summary env (''<p>Hello   world</p>'' @ replicate 400 (CHR ''x''))) = 303"
    unfolding c by simp
next
  assume "300 < length (collapse_whitespace (strip (get_text env txt)))"
  then show "clean_summary env txt = take 300 (collapse_whitespace (strip (get_text env txt))) @ ''...''"
    and "length (clean_summary env txt) = 303"
    by (simp_all add: clean_summary_def Let_def)
qed

theorem clean_summary_truncation_witness:
  "get_text world (''<p>Hello   world</p>'' @ replicate 400 (CHR ''x'')) =
        ''Hello   world '' @ replicate 400 (CHR ''x'')
   \<and> 300 < length (collapse_whitespace (strip (get_text world (''<p>Hello   world</p>'' @ replicate 400 (CHR ''x'')))))
   \<and> clean_summary world (''<p>Hello   world</p>'' @ replicate 400 (CHR ''x'')) =
        ''Hello world '' @ replicate 288 (CHR ''x'') @ ''...''
   \<and> length (clean_summary world (''<p>Hello   world</p>'' @ replicate 400 (CHR ''x''))) = 303"
proof -
  have h: "get_text world (''<p>Hello   world</p>'' @ replicate 400 (CHR ''x'')) =
        ''Hello   world '' @ replicate 400 (CHR ''x'')"
    by code_simp
  have l: "300 < length (collapse_whitespace (strip (get_text world (''<p>Hello   world</p>'' @ replicate 400 (CHR ''x'')))))"
    by code_simp
  from clean_summary_truncation [of world "''<p>Hello   world</p>'' @ replicate 400 (CHR ''x'')"] h l
  show ?thesis by blast
qed

end
